theory Spec2Isabelle
  imports Main "HOL-Library.Sublist"
begin

section \<open>The issue importer \<^verbatim>\<open>.github/scripts/create-issues.py\<close>\<close>

text \<open>
  The script reads a markdown document, extracts issue records with one regular
  expression, filters them by number and, outside dry-run mode, creates labels and
  issues through a remote client. The embedding follows the script function by function.

  Text is \<^typ>\<open>string\<close>: a list of characters, each standing for the Python code point
  with the same number, so the model covers text whose code points are below 256. The
  built-in string operations are given for that range as the interpreter defines them.
  Integers are unbounded, as in Python; the interpreter's optional limit on the number of
  digits \<^verbatim>\<open>int()\<close> converts is a runtime setting and is not part of the model.
\<close>

subsection \<open>Built-in string operations\<close>

definition isspace :: "char \<Rightarrow> bool" where
  \<comment> \<open>\<^verbatim>\<open>str.isspace\<close> on one character: the code points \<^verbatim>\<open>str.strip()\<close> removes.\<close>
  "isspace c =
     (let n = (of_char c :: nat)
      in (9 \<le> n \<and> n \<le> 13) \<or> (28 \<le> n \<and> n \<le> 32) \<or> n = 133 \<or> n = 160)"

definition isdigit :: "char \<Rightarrow> bool" where
  \<comment> \<open>\<^verbatim>\<open>\d\<close> of \<^verbatim>\<open>re\<close> and the digits of \<^verbatim>\<open>int()\<close>: below 256 these are 0 to 9 only.\<close>
  "isdigit c = (let n = (of_char c :: nat) in 48 \<le> n \<and> n \<le> 57)"

definition lstrip :: "string \<Rightarrow> string" where
  "lstrip s = dropWhile isspace s"

definition rstrip :: "string \<Rightarrow> string" where
  "rstrip s = rev (dropWhile isspace (rev s))"

definition strip :: "string \<Rightarrow> string" where
  \<comment> \<open>\<^verbatim>\<open>s.strip()\<close>\<close>
  "strip s = rstrip (lstrip s)"

fun split_from :: "char \<Rightarrow> string \<Rightarrow> string \<Rightarrow> string list" where
  \<comment> \<open>the scan of \<^verbatim>\<open>s.split(sep)\<close>; the second argument is the current piece, reversed\<close>
  "split_from sep cur [] = [rev cur]"
| "split_from sep cur (c # cs) =
     (if c = sep then rev cur # split_from sep [] cs else split_from sep (c # cur) cs)"

definition str_split :: "char \<Rightarrow> string \<Rightarrow> string list" where
  \<comment> \<open>\<^verbatim>\<open>s.split(sep)\<close> for a separator of one character (the script's is a comma)\<close>
  "str_split sep s = split_from sep [] s"

fun join :: "string \<Rightarrow> string list \<Rightarrow> string" where
  \<comment> \<open>\<^verbatim>\<open>sep.join(pieces)\<close>\<close>
  "join sep [] = []"
| "join sep [p] = p"
| "join sep (p # q # ps) = p @ sep @ join sep (q # ps)"

definition lower_char :: "char \<Rightarrow> char" where
  "lower_char c =
     (let n = (of_char c :: nat)
      in if (65 \<le> n \<and> n \<le> 90) \<or> (192 \<le> n \<and> n \<le> 222 \<and> n \<noteq> 215)
         then char_of (n + 32) else c)"

definition lower :: "string \<Rightarrow> string" where
  \<comment> \<open>\<^verbatim>\<open>s.lower()\<close>\<close>
  "lower s = map lower_char s"

definition digit_value :: "char \<Rightarrow> int" where
  "digit_value c = int (of_char c) - 48"

definition digits_value :: "string \<Rightarrow> int" where
  "digits_value ds = foldl (\<lambda>a c. 10 * a + digit_value c) 0 ds"

definition int_space :: "char \<Rightarrow> bool" where
  \<comment> \<open>the whitespace \<^verbatim>\<open>int()\<close> skips around a number: the code points 28 to 31, which
      \<^verbatim>\<open>strip()\<close> removes, are not among them\<close>
  "int_space c =
     (let n = (of_char c :: nat) in (9 \<le> n \<and> n \<le> 13) \<or> n = 32 \<or> n = 133 \<or> n = 160)"

definition int_digits :: "string \<Rightarrow> int option" where
  \<comment> \<open>decimal digits, with single underscores allowed between digits\<close>
  "int_digits ds =
     (let groups = str_split (CHR ''_'') ds
      in if list_all (\<lambda>g. g \<noteq> [] \<and> list_all isdigit g) groups
         then Some (digits_value (concat groups)) else None)"

definition py_int :: "string \<Rightarrow> int option" where
  \<comment> \<open>\<^verbatim>\<open>int(s)\<close> on a string; \<open>None\<close> stands for the \<^verbatim>\<open>ValueError\<close> it raises\<close>
  "py_int s =
     (case rev (dropWhile int_space (rev (dropWhile int_space s))) of
        [] \<Rightarrow> None
      | c # ds \<Rightarrow>
          if c = CHR ''+'' then int_digits ds
          else if c = CHR ''-'' then map_option uminus (int_digits ds)
          else int_digits (c # ds))"

fun str_nat :: "nat \<Rightarrow> string" where
  "str_nat n =
     (if n < 10 then [char_of (48 + n)] else str_nat (n div 10) @ [char_of (48 + n mod 10)])"

declare str_nat.simps [simp del]

definition str_int :: "int \<Rightarrow> string" where
  \<comment> \<open>\<^verbatim>\<open>str(i)\<close>, the text an f-string puts for an integer\<close>
  "str_int i = (if i < 0 then CHR ''-'' # str_nat (nat (- i)) else str_nat (nat i))"

definition str_bool :: "bool \<Rightarrow> string" where
  "str_bool b = (if b then ''True'' else ''False'')"

subsection \<open>The section pattern and \<^verbatim>\<open>re.finditer\<close>\<close>

text \<open>
  The pattern of \<^verbatim>\<open>parse_issues_file\<close> is a sequence of literal texts and nine capture
  groups. Each group is one character class under a quantifier: \<^verbatim>\<open>(\d+)\<close> and
  \<^verbatim>\<open>([^\n]+)\<close> are greedy, \<^verbatim>\<open>(.*?)\<close> is lazy and, under \<^verbatim>\<open>re.DOTALL\<close>, its dot matches
  every character. The matcher is the backtracking search of \<^verbatim>\<open>re\<close>: a greedy group
  tries its longest extent first, a lazy group its shortest, and the first way through
  the whole pattern in that order is the match.
\<close>

datatype cls = Digit | NotNewline | AnyChar

fun in_cls :: "cls \<Rightarrow> char \<Rightarrow> bool" where
  "in_cls Digit c = isdigit c"
| "in_cls NotNewline c = (c \<noteq> CHR 0x0A)"
| "in_cls AnyChar c = True"

datatype node = Lit string | GreedyPlus cls | LazyStar cls

type_synonym matched = "string list \<times> string"
  \<comment> \<open>the groups captured from here on, and the text after the match\<close>

definition capture :: "string \<Rightarrow> (string \<Rightarrow> matched option) \<Rightarrow> string \<Rightarrow> matched option" where
  \<comment> \<open>close a group (collected in reverse) and go on with the rest of the pattern\<close>
  "capture acc k s = map_option (\<lambda>(gs, r). (rev acc # gs, r)) (k s)"

fun star_greedy ::
  "(char \<Rightarrow> bool) \<Rightarrow> (string \<Rightarrow> matched option) \<Rightarrow> string \<Rightarrow> string \<Rightarrow> matched option" where
  "star_greedy P k acc [] = capture acc k []"
| "star_greedy P k acc (c # cs) =
     (if P c
      then (case star_greedy P k (c # acc) cs of
              Some m \<Rightarrow> Some m
            | None \<Rightarrow> capture acc k (c # cs))
      else capture acc k (c # cs))"

fun star_lazy ::
  "(char \<Rightarrow> bool) \<Rightarrow> (string \<Rightarrow> matched option) \<Rightarrow> string \<Rightarrow> string \<Rightarrow> matched option" where
  "star_lazy P k acc [] = capture acc k []"
| "star_lazy P k acc (c # cs) =
     (case capture acc k (c # cs) of
        Some m \<Rightarrow> Some m
      | None \<Rightarrow> if P c then star_lazy P k (c # acc) cs else None)"

fun match_node :: "node \<Rightarrow> (string \<Rightarrow> matched option) \<Rightarrow> string \<Rightarrow> matched option" where
  "match_node (Lit l) k s = (if prefix l s then k (drop (length l) s) else None)"
| "match_node (GreedyPlus c) k [] = None"
| "match_node (GreedyPlus c) k (x # xs) =
     (if in_cls c x then star_greedy (in_cls c) k [x] xs else None)"
| "match_node (LazyStar c) k s = star_lazy (in_cls c) k [] s"

primrec match_nodes :: "node list \<Rightarrow> string \<Rightarrow> matched option" where
  "match_nodes [] = (\<lambda>s. Some ([], s))"
| "match_nodes (n # ns) = match_node n (match_nodes ns)"

definition nl :: string where
  "nl = [CHR 0x0A]"

definition issue_pattern :: "node list" where
  "issue_pattern =
     [Lit ''### Issue '', GreedyPlus Digit, Lit '': '', GreedyPlus NotNewline,
      Lit (nl @ ''**Title**: ''), GreedyPlus NotNewline,
      Lit (nl @ nl @ ''**Description**:'' @ nl), LazyStar AnyChar,
      Lit (nl @ nl @ ''**Goals**:'' @ nl), LazyStar AnyChar,
      Lit (nl @ nl @ ''**Files to modify**:'' @ nl), LazyStar AnyChar,
      Lit (nl @ nl @ ''**Acceptance Criteria**:'' @ nl), LazyStar AnyChar,
      Lit (nl @ nl @ ''**Labels**: ''), GreedyPlus NotNewline,
      Lit (nl @ ''**Estimated effort**: ''), GreedyPlus NotNewline]"

definition match_here :: "string \<Rightarrow> matched option" where
  \<comment> \<open>the pattern matched at the start of the text\<close>
  "match_here s = match_nodes issue_pattern s"


subsection \<open>The pattern as a grammar\<close>

text \<open>
  What a match means, independently of the search: \<open>groups_fit\<close> says which texts the
  groups of a pattern may hold, \<open>assemble\<close> puts literals and group texts together again.
\<close>

fun groups_fit :: "node list \<Rightarrow> string list \<Rightarrow> bool" where
  "groups_fit [] gs = (gs = [])"
| "groups_fit (Lit l # ns) gs = groups_fit ns gs"
| "groups_fit (GreedyPlus c # ns) [] = False"
| "groups_fit (GreedyPlus c # ns) (g # gs) = (g \<noteq> [] \<and> list_all (in_cls c) g \<and> groups_fit ns gs)"
| "groups_fit (LazyStar c # ns) [] = False"
| "groups_fit (LazyStar c # ns) (g # gs) = (list_all (in_cls c) g \<and> groups_fit ns gs)"

fun assemble :: "node list \<Rightarrow> string list \<Rightarrow> string" where
  "assemble [] gs = []"
| "assemble (Lit l # ns) gs = l @ assemble ns gs"
| "assemble (n # ns) [] = assemble ns []"
| "assemble (n # ns) (g # gs) = g @ assemble ns gs"

definition matches_at :: "string \<Rightarrow> nat \<Rightarrow> bool" where
  \<comment> \<open>a section matching the full grammar starts at this position of the document\<close>
  "matches_at content i =
     (i \<le> length content \<and>
      (\<exists>gs rest. groups_fit issue_pattern gs \<and> drop i content = assemble issue_pattern gs @ rest))"


subsection \<open>The search finds exactly the matches of the grammar\<close>

lemma capture_Some: "capture acc k s = Some (gs, r) \<longleftrightarrow> (\<exists>gs'. gs = rev acc # gs' \<and> k s = Some (gs', r))"
  by (auto simp: capture_def)

lemma capture_None: "capture acc k s = None \<longleftrightarrow> k s = None"
  by (simp add: capture_def)

lemma star_greedy_sound:
  "star_greedy P k acc s = Some (gs, r) \<Longrightarrow> list_all P acc \<Longrightarrow>
   \<exists>g gs' t. gs = g # gs' \<and> list_all P g \<and> rev acc @ s = g @ t \<and> length (rev acc) \<le> length g \<and> k t = Some (gs', r)"
proof (induction P k acc s rule: star_greedy.induct)
  case (1 P k acc)
  then show ?case by (auto simp: capture_Some)
next
  case (2 P k acc c cs)
  show ?case
  proof (cases "P c \<and> star_greedy P k (c # acc) cs \<noteq> None")
    case True
    with "2.prems" have "star_greedy P k (c # acc) cs = Some (gs, r)" by (auto split: option.splits)
    with "2.IH" True "2.prems"(2) show ?thesis by fastforce
  next
    case False
    with "2.prems" have "capture acc k (c # cs) = Some (gs, r)" by (auto split: option.splits if_splits)
    with "2.prems"(2) show ?thesis by (auto simp: capture_Some)
  qed
qed

lemma star_lazy_sound:
  "star_lazy P k acc s = Some (gs, r) \<Longrightarrow> list_all P acc \<Longrightarrow>
   \<exists>g gs' t. gs = g # gs' \<and> list_all P g \<and> rev acc @ s = g @ t \<and> k t = Some (gs', r)"
proof (induction P k acc s rule: star_lazy.induct)
  case (1 P k acc)
  then show ?case by (auto simp: capture_Some)
next
  case (2 P k acc c cs)
  show ?case
  proof (cases "capture acc k (c # cs)")
    case None
    with "2.prems" have "P c" and "star_lazy P k (c # acc) cs = Some (gs, r)" by (auto split: if_splits)
    with "2.IH" None "2.prems"(2) show ?thesis by fastforce
  next
    case (Some m)
    with "2.prems" have "capture acc k (c # cs) = Some (gs, r)" by simp
    with "2.prems"(2) show ?thesis by (auto simp: capture_Some)
  qed
qed

lemma match_nodes_sound:
  "match_nodes ns s = Some (gs, r) \<Longrightarrow> groups_fit ns gs \<and> s = assemble ns gs @ r"
proof (induction ns arbitrary: s gs r)
  case Nil
  then show ?case by simp
next
  case (Cons n ns)
  show ?case
  proof (cases n)
    case (Lit l)
    with Cons.prems have p: "prefix l s" and m: "match_nodes ns (drop (length l) s) = Some (gs, r)"
      by (auto split: if_splits)
    from p have "s = l @ drop (length l) s" by (auto simp: prefix_def)
    with Cons.IH [OF m] Lit show ?thesis by simp
  next
    case (GreedyPlus c)
    with Cons.prems obtain x xs where s: "s = x # xs" and x: "in_cls c x"
      and m: "star_greedy (in_cls c) (match_nodes ns) [x] xs = Some (gs, r)"
      by (cases s) (auto split: if_splits)
    from star_greedy_sound [OF m] x obtain g gs' t where
      "gs = g # gs'" "list_all (in_cls c) g" "x # xs = g @ t" "1 \<le> length g" "match_nodes ns t = Some (gs', r)"
      by auto
    with Cons.IH [of t gs' r] GreedyPlus s show ?thesis by auto
  next
    case (LazyStar c)
    with Cons.prems have m: "star_lazy (in_cls c) (match_nodes ns) [] s = Some (gs, r)" by simp
    from star_lazy_sound [OF m] obtain g gs' t where
      "gs = g # gs'" "list_all (in_cls c) g" "s = g @ t" "match_nodes ns t = Some (gs', r)"
      by auto
    with Cons.IH [of t gs' r] LazyStar show ?thesis by auto
  qed
qed

lemma star_greedy_complete:
  "list_all P g \<Longrightarrow> k t \<noteq> None \<Longrightarrow> star_greedy P k acc (g @ t) \<noteq> None"
proof (induction g arbitrary: acc)
  case Nil
  then show ?case by (cases t) (auto simp: capture_def split: option.splits)
next
  case (Cons x g)
  then have "star_greedy P k (x # acc) (g @ t) \<noteq> None" by simp
  with Cons.prems show ?case by (auto split: option.splits)
qed

lemma star_lazy_complete:
  "list_all P g \<Longrightarrow> k t \<noteq> None \<Longrightarrow> star_lazy P k acc (g @ t) \<noteq> None"
proof (induction g arbitrary: acc)
  case Nil
  then show ?case by (cases t) (auto simp: capture_def split: option.splits)
next
  case (Cons x g)
  then have "star_lazy P k (x # acc) (g @ t) \<noteq> None" by simp
  with Cons.prems show ?case by (auto split: option.splits)
qed

lemma match_nodes_complete:
  "groups_fit ns gs \<Longrightarrow> match_nodes ns (assemble ns gs @ r) \<noteq> None"
proof (induction ns gs rule: groups_fit.induct)
  case (4 c ns g gs)
  then obtain x g' where g: "g = x # g'" by (cases g) auto
  with 4 have "list_all (in_cls c) g'" "in_cls c x" "match_nodes ns (assemble ns gs @ r) \<noteq> None" by auto
  with star_greedy_complete [of "in_cls c" g' "match_nodes ns" "assemble ns gs @ r" "[x]"] g
  show ?case by simp
next
  case (6 c ns g gs)
  then have "list_all (in_cls c) g" "match_nodes ns (assemble ns gs @ r) \<noteq> None" by auto
  with star_lazy_complete [of "in_cls c" g "match_nodes ns" "assemble ns gs @ r" "[]"]
  show ?case by simp
qed auto

lemma match_here_iff:
  "match_here s \<noteq> None \<longleftrightarrow> (\<exists>gs r. groups_fit issue_pattern gs \<and> s = assemble issue_pattern gs @ r)"
  unfolding match_here_def using match_nodes_sound match_nodes_complete 
  by (metis not_Some_eq surj_pair)

lemma match_here_shorter: "match_here s = Some (gs, r) \<Longrightarrow> length r < length s"
proof -
  assume "match_here s = Some (gs, r)"
  then have "s = assemble issue_pattern gs @ r"
    unfolding match_here_def by (rule match_nodes_sound [THEN conjunct2])
  then have "length s = length (assemble issue_pattern gs) + length r" by (metis length_append)
  moreover have "0 < length (assemble issue_pattern gs)" by (simp add: issue_pattern_def)
  ultimately show ?thesis by simp
qed

subsection \<open>\<^verbatim>\<open>parse_issues_file\<close>\<close>

function finditer :: "string \<Rightarrow> string list list" where
  \<comment> \<open>\<^verbatim>\<open>re.finditer(issue_pattern, content, re.DOTALL)\<close>: the groups of the matches, left to
      right; after a match the scan goes on behind it, otherwise one character further\<close>
  "finditer s =
     (case match_here s of
        Some (gs, rest) \<Rightarrow> gs # finditer rest
      | None \<Rightarrow> (case s of [] \<Rightarrow> [] | c # cs \<Rightarrow> finditer cs))"
  by pat_completeness auto
termination
  by (relation "measure length") (auto dest: match_here_shorter)

declare finditer.simps [simp del]

record issue =
  number :: int
  short_title :: string
  title :: string
  description :: string
  goals :: string
  files :: string
  acceptance :: string
  labels :: "string list"
  effort :: string

definition group :: "string list \<Rightarrow> nat \<Rightarrow> string" where
  \<comment> \<open>\<^verbatim>\<open>match.group(i)\<close> for \<open>i\<close> from 1; a match of the pattern has all nine groups\<close>
  "group gs i = gs ! (i - 1)"

datatype exn = ValueError | OSError | RemoteError string
  \<comment> \<open>the exceptions of a run: \<^verbatim>\<open>int()\<close> on a text that is no number, a file that cannot be
      read, and an error raised by a call of the remote client, with its message\<close>

definition split_labels :: "string \<Rightarrow> string list" where
  \<comment> \<open>\<^verbatim>\<open>[l.strip() for l in labels_str.split(',')]\<close>\<close>
  "split_labels labels_str = map strip (str_split (CHR '','') labels_str)"

definition issue_of_match :: "string list \<Rightarrow> exn + issue" where
  \<comment> \<open>the body of the loop over the matches\<close>
  "issue_of_match m =
     (case py_int (group m 1) of
        None \<Rightarrow> Inl ValueError
      | Some issue_num \<Rightarrow>
          (let issue_short_title = strip (group m 2);
               issue_title = strip (group m 3);
               description = strip (group m 4);
               goals = strip (group m 5);
               files = strip (group m 6);
               acceptance = strip (group m 7);
               labels_str = strip (group m 8);
               effort = strip (group m 9)
           in Inr \<lparr>number = issue_num,
                   short_title = issue_short_title,
                   title = issue_title,
                   description = description,
                   goals = goals,
                   files = files,
                   acceptance = acceptance,
                   labels = split_labels labels_str,
                   effort = effort\<rparr>))"

fun collect_issues :: "string list list \<Rightarrow> exn + issue list" where
  \<comment> \<open>the loop over the matches: \<^verbatim>\<open>issues.append\<close> for each, an exception ends it\<close>
  "collect_issues [] = Inr []"
| "collect_issues (m # ms) =
     (case issue_of_match m of
        Inl e \<Rightarrow> Inl e
      | Inr issue \<Rightarrow>
          (case collect_issues ms of
             Inl e \<Rightarrow> Inl e
           | Inr issues \<Rightarrow> Inr (issue # issues)))"

definition extract_issues :: "string \<Rightarrow> exn + issue list" where
  \<comment> \<open>\<^verbatim>\<open>parse_issues_file\<close> from the text of the file on\<close>
  "extract_issues content = collect_issues (finditer content)"

type_synonym files = "string \<rightharpoonup> string"
  \<comment> \<open>the readable files: path to text\<close>

definition parse_issues_file :: "files \<Rightarrow> string \<Rightarrow> exn + issue list" where
  "parse_issues_file fs filepath =
     (case fs filepath of
        None \<Rightarrow> Inl OSError
      | Some content \<Rightarrow> extract_issues content)"

subsection \<open>\<^verbatim>\<open>create_issue_body\<close>\<close>

definition create_issue_body :: "issue \<Rightarrow> string" where
  "create_issue_body issue =
     ''## Description'' @ nl @ nl @ description issue @ nl @ nl @
     ''## Goals'' @ nl @ nl @ goals issue @ nl @ nl @
     ''## Files to modify'' @ nl @ nl @ files issue @ nl @ nl @
     ''## Acceptance Criteria'' @ nl @ nl @ acceptance issue @ nl @ nl @
     ''---'' @ nl @
     ''**Estimated Effort**: '' @ effort issue @ nl @
     ''**Related to**: Code Review 2025-10-24'' @ nl"


subsection \<open>\<^verbatim>\<open>main\<close>\<close>

text \<open>
  A run is observed through its trace: the lines it prints, the file it opens and the
  calls it makes through the remote client, in order. The remote side is a parameter: for
  each call it says, from the calls made before, whether the call raises (with the
  message of the exception) or what it returns. Constructing the client sends nothing.
  Printing never fails. The two symbols of the success and failure lines lie outside the
  character range of the model and are written as their UTF-8 bytes.
\<close>

datatype call =
    GetRepo string string
  | GetLabels
  | CreateLabel string string
  | CreateIssue string string "string list"

datatype event = Print string | Open string | Remote call

datatype outcome = Finished | SysExit int | Raised exn

fun exit_status :: "outcome \<Rightarrow> int" where
  "exit_status Finished = 0"
| "exit_status (SysExit n) = n"
| "exit_status (Raised e) = 1"

record remote =
  get_repo :: "call list \<Rightarrow> string \<Rightarrow> string \<Rightarrow> string option"
  get_labels :: "call list \<Rightarrow> string + string list"
  create_label :: "call list \<Rightarrow> string \<Rightarrow> string \<Rightarrow> string option"
  create_issue :: "call list \<Rightarrow> string \<Rightarrow> string \<Rightarrow> string list \<Rightarrow> string + int \<times> string"

type_synonym environ = "string \<rightharpoonup> string"

definition getenv :: "environ \<Rightarrow> string \<Rightarrow> string \<Rightarrow> string" where
  \<comment> \<open>\<^verbatim>\<open>os.getenv(key, default)\<close>\<close>
  "getenv env key dflt = (case env key of None \<Rightarrow> dflt | Some v \<Rightarrow> v)"

definition not_set :: "string option \<Rightarrow> bool" where
  \<comment> \<open>\<^verbatim>\<open>not os.getenv(key)\<close>: the variable is absent or empty\<close>
  "not_set v = (case v of None \<Rightarrow> True | Some t \<Rightarrow> t = [])"

fun calls :: "event list \<Rightarrow> call list" where
  "calls [] = []"
| "calls (Remote c # es) = c # calls es"
| "calls (e # es) = calls es"

definition check_mark :: string where
  "check_mark = [CHR 0xE2, CHR 0x9C, CHR 0x93]"

definition cross_mark :: string where
  "cross_mark = [CHR 0xE2, CHR 0x9C, CHR 0x97]"

definition issues_file :: string where
  "issues_file = ''code-reviews/2025-10-24-comprehensive-review/CODE_REVIEW_ISSUES.md''"

definition is_dry_run :: "environ \<Rightarrow> bool" where
  \<comment> \<open>\<^verbatim>\<open>os.getenv('DRY_RUN', 'true').lower() == 'true'\<close>\<close>
  "is_dry_run env = (lower (getenv env ''DRY_RUN'' ''true'') = ''true'')"

definition filtered_issues :: "int \<Rightarrow> int \<Rightarrow> issue list \<Rightarrow> issue list" where
  "filtered_issues start_issue end_issue issues =
     [issue \<leftarrow> issues. start_issue \<le> number issue \<and> number issue \<le> end_issue]"

definition initialize_client ::
  "environ \<Rightarrow> remote \<Rightarrow> event list \<Rightarrow> event list \<times> (outcome + string set)" where
  \<comment> \<open>the block under \<^verbatim>\<open>if not dry_run\<close>: the credentials, the repository, its label names\<close>
  "initialize_client env R log =
     (let github_token = env ''GITHUB_TOKEN'' in
      if not_set github_token
      then (log @ [Print ''ERROR: GITHUB_TOKEN environment variable not set''], Inl (SysExit 1))
      else
        let github_repo = env ''GITHUB_REPOSITORY'' in
        if not_set github_repo
        then (log @ [Print ''ERROR: GITHUB_REPOSITORY environment variable not set''],
              Inl (SysExit 1))
        else
          let log1 = log @ [Remote (GetRepo (the github_token) (the github_repo))] in
          case get_repo R (calls log) (the github_token) (the github_repo) of
            Some err \<Rightarrow> (log1, Inl (Raised (RemoteError err)))
          | None \<Rightarrow>
              (let log2 = log1 @ [Remote GetLabels] in
               case get_labels R (calls log1) of
                 Inl err \<Rightarrow> (log2, Inl (Raised (RemoteError err)))
               | Inr names \<Rightarrow> (log2, Inr (set names))))"

fun create_missing_labels ::
  "remote \<Rightarrow> string list \<Rightarrow> string set \<Rightarrow> event list \<Rightarrow> event list \<times> (exn + string set)" where
  \<comment> \<open>the loop over the labels of one issue\<close>
  "create_missing_labels R [] existing_labels log = (log, Inr existing_labels)"
| "create_missing_labels R (label # rest) existing_labels log =
     (if label \<notin> existing_labels
      then
        let log1 = log @ [Print (''  Creating label: '' @ label)];
            log2 = log1 @ [Remote (CreateLabel label ''0366d6'')] in
        case create_label R (calls log1) label ''0366d6'' of
          Some err \<Rightarrow> (log2, Inl (RemoteError err))
        | None \<Rightarrow> create_missing_labels R rest (insert label existing_labels) log2
      else create_missing_labels R rest existing_labels log)"

definition process_issue ::
  "remote \<Rightarrow> bool \<Rightarrow> issue \<Rightarrow> string set \<times> nat \<Rightarrow> event list \<Rightarrow>
   event list \<times> (exn + string set \<times> nat)" where
  \<comment> \<open>the body of the loop over the filtered issues; the state is the set of known labels
      and \<^verbatim>\<open>created_count\<close>\<close>
  "process_issue R dry_run issue st log =
     (let body = create_issue_body issue;
          log1 = log @
            [Print ((if dry_run then ''[DRY RUN] '' else []) @
                    ''Issue #'' @ str_int (number issue) @ '': '' @ title issue),
             Print (''  Labels: '' @ join '', '' (labels issue)),
             Print (''  Effort: '' @ effort issue)] in
      if dry_run
      then (log1 @ [Print (''  Would create issue with title: '' @ title issue), Print []],
            Inr st)
      else
        case create_missing_labels R (labels issue) (fst st) log1 of
          (log2, Inl e) \<Rightarrow> (log2, Inl e)
        | (log2, Inr existing_labels) \<Rightarrow>
            (let log3 = log2 @ [Remote (CreateIssue (title issue) body (labels issue))] in
             case create_issue R (calls log2) (title issue) body (labels issue) of
               Inr (num, url) \<Rightarrow>
                 (log3 @
                    [Print (''  '' @ check_mark @ '' Created issue #'' @ str_int num @ '': '' @ url),
                     Print []],
                  Inr (existing_labels, snd st + 1))
             | Inl err \<Rightarrow>
                 (log3 @
                    [Print (''  '' @ cross_mark @ '' Error creating issue: '' @ err), Print []],
                  Inr (existing_labels, snd st))))"

fun process_issues ::
  "remote \<Rightarrow> bool \<Rightarrow> issue list \<Rightarrow> string set \<times> nat \<Rightarrow> event list \<Rightarrow>
   event list \<times> (exn + string set \<times> nat)" where
  \<comment> \<open>\<^verbatim>\<open>for issue in filtered_issues\<close>\<close>
  "process_issues R dry_run [] st log = (log, Inr st)"
| "process_issues R dry_run (issue # rest) st log =
     (case process_issue R dry_run issue st log of
        (log', Inl e) \<Rightarrow> (log', Inl e)
      | (log', Inr st') \<Rightarrow> process_issues R dry_run rest st' log')"

definition summary :: "bool \<Rightarrow> nat \<Rightarrow> nat \<Rightarrow> event list" where
  \<comment> \<open>the lines printed after the loop\<close>
  "summary dry_run created_count n_filtered =
     Print ''Done!'' #
     (if dry_run
      then [Print (nl @ ''This was a DRY RUN. No issues were created.''),
            Print ''To create issues, run this workflow again with dry_run=false'']
      else [Print (nl @ check_mark @ '' Successfully created '' @ str_nat created_count @
                   '' of '' @ str_nat n_filtered @ '' issues'')])"

definition dry_lines :: "issue \<Rightarrow> event list" where
  \<comment> \<open>the lines one issue gets in dry-run mode\<close>
  "dry_lines issue =
     [Print (''[DRY RUN] Issue #'' @ str_int (number issue) @ '': '' @ title issue),
      Print (''  Labels: '' @ join '', '' (labels issue)),
      Print (''  Effort: '' @ effort issue),
      Print (''  Would create issue with title: '' @ title issue),
      Print []]"

definition config_lines :: "bool \<Rightarrow> int \<Rightarrow> int \<Rightarrow> event list" where
  \<comment> \<open>the four lines printed first\<close>
  "config_lines dry_run start_issue end_issue =
     [Print ''Configuration:'',
      Print (''  Dry run: '' @ str_bool dry_run),
      Print (''  Issue range: '' @ str_int start_issue @ '' to '' @ str_int end_issue),
      Print []]"

definition parsed_lines :: "nat \<Rightarrow> nat \<Rightarrow> int \<Rightarrow> int \<Rightarrow> event list" where
  \<comment> \<open>the lines printed after parsing and after filtering\<close>
  "parsed_lines n_issues n_filtered start_issue end_issue =
     [Print (''Parsed '' @ str_nat n_issues @ '' issues from CODE_REVIEW_ISSUES.md''),
      Print [],
      Print (''Creating '' @ str_nat n_filtered @ '' issues (range: '' @
             str_int start_issue @ ''-'' @ str_int end_issue @ '')''),
      Print []]"

definition main :: "environ \<Rightarrow> files \<Rightarrow> remote \<Rightarrow> event list \<times> outcome" where
  "main env fs R =
     (let dry_run = is_dry_run env in
      case py_int (getenv env ''START_ISSUE'' ''1'') of
        None \<Rightarrow> ([], Raised ValueError)
      | Some start_issue \<Rightarrow>
     (case py_int (getenv env ''END_ISSUE'' ''20'') of
        None \<Rightarrow> ([], Raised ValueError)
      | Some end_issue \<Rightarrow>
     (let log1 = config_lines dry_run start_issue end_issue @ [Open issues_file] in
      case parse_issues_file fs issues_file of
        Inl e \<Rightarrow> (log1, Raised e)
      | Inr issues \<Rightarrow>
     (let filtered = filtered_issues start_issue end_issue issues;
          log2 = log1 @ parsed_lines (length issues) (length filtered) start_issue end_issue in
      case (if dry_run then (log2, Inr {}) else initialize_client env R log2) of
        (log3, Inl out) \<Rightarrow> (log3, out)
      | (log3, Inr existing_labels) \<Rightarrow>
     (case process_issues R dry_run filtered (existing_labels, 0) log3 of
        (log4, Inl e) \<Rightarrow> (log4, Raised e)
      | (log4, Inr st) \<Rightarrow>
          (log4 @ summary dry_run (snd st) (length filtered), Finished))))))"

section \<open>Properties\<close>

subsection \<open>Splitting and trimming\<close>

lemma split_from_cur: "split_from sep cur s = (rev cur @ hd (split_from sep [] s)) # tl (split_from sep [] s)"
proof (induction s arbitrary: cur)
  case Nil
  show ?case by simp
next
  case (Cons c s)
  show ?case
  proof (cases "c = sep")
    case True
    then show ?thesis by simp
  next
    case False
    have "split_from sep (c # cur) s = (rev (c # cur) @ hd (split_from sep [] s)) # tl (split_from sep [] s)"
      by (rule Cons.IH)
    moreover have "split_from sep [c] s = (rev [c] @ hd (split_from sep [] s)) # tl (split_from sep [] s)"
      by (rule Cons.IH)
    ultimately show ?thesis using False by simp
  qed
qed

lemma str_split_Nil: "str_split sep [] = [[]]"
  by (simp add: str_split_def)

lemma str_split_Cons:
  "str_split sep (c # s) =
     (if c = sep then [] # str_split sep s
      else (c # hd (str_split sep s)) # tl (str_split sep s))"
  using split_from_cur [of sep "[c]" s] by (simp add: str_split_def)

lemma str_split_not_Nil: "str_split sep s \<noteq> []"
  by (cases s) (simp_all add: str_split_Nil str_split_Cons)

lemma join_str_split: "join [sep] (str_split sep s) = s"
proof (induction s)
  case Nil
  show ?case by (simp add: str_split_Nil)
next
  case (Cons c s)
  obtain p ps where ps: "str_split sep s = p # ps"
    using str_split_not_Nil [of sep s] by (cases "str_split sep s") auto
  with Cons show ?case by (cases ps) (auto simp: str_split_Cons)
qed

lemma str_split_no_sep: "p \<in> set (str_split sep s) \<Longrightarrow> sep \<notin> set p"
proof (induction s arbitrary: p)
  case Nil
  then show ?case by (simp add: str_split_Nil)
next
  case (Cons c s)
  obtain q qs where qs: "str_split sep s = q # qs"
    using str_split_not_Nil [of sep s] by (cases "str_split sep s") auto
  with Cons.prems Cons.IH show ?case by (auto simp: str_split_Cons split: if_splits)
qed

lemma length_str_split: "length (str_split sep s) = Suc (count_list s sep)"
proof (induction s)
  case Nil
  show ?case by (simp add: str_split_Nil)
next
  case (Cons c s)
  obtain q qs where qs: "str_split sep s = q # qs"
    using str_split_not_Nil [of sep s] by (cases "str_split sep s") auto
  with Cons show ?case by (auto simp: str_split_Cons)
qed

lemma str_split_prepend:
  "sep \<notin> set w \<Longrightarrow> str_split sep (w @ s) = (w @ hd (str_split sep s)) # tl (str_split sep s)"
proof (induction w)
  case Nil
  show ?case using str_split_not_Nil [of sep s] by simp
next
  case (Cons c w)
  then show ?case by (auto simp: str_split_Cons)
qed

lemma str_split_append:
  "sep \<notin> set w \<Longrightarrow>
   str_split sep (s @ w) = butlast (str_split sep s) @ [last (str_split sep s) @ w]"
proof (induction s)
  case Nil
  then show ?case using str_split_prepend [of sep w "[]"] by (simp add: str_split_Nil)
next
  case (Cons c s)
  obtain q qs where qs: "str_split sep s = q # qs"
    using str_split_not_Nil [of sep s] by (cases "str_split sep s") auto
  have ne: "str_split sep (s @ w) \<noteq> []" by (rule str_split_not_Nil)
  from Cons qs show ?case
    by (cases qs) (auto simp: str_split_Cons)
qed

lemma lstrip_space_prefix: "list_all isspace w \<Longrightarrow> lstrip (w @ s) = lstrip s"
  by (induction w) (simp_all add: lstrip_def)

lemma rstrip_space_suffix: "list_all isspace w \<Longrightarrow> rstrip (s @ w) = rstrip s"
  by (induction w rule: rev_induct) (simp_all add: rstrip_def)

lemma strip_space_prefix: "list_all isspace w \<Longrightarrow> strip (w @ s) = strip s"
  by (simp add: strip_def lstrip_space_prefix)

lemma lstrip_append: "lstrip (s @ w) = (if list_all isspace s then lstrip w else lstrip s @ w)"
  by (induction s) (simp_all add: lstrip_def)

lemma rstrip_all_space: "list_all isspace w \<Longrightarrow> rstrip w = []"
  using rstrip_space_suffix [of w "[]"] by (simp add: rstrip_def)

lemma lstrip_all_space: "list_all isspace w \<Longrightarrow> lstrip w = []"
  using lstrip_space_prefix [of w "[]"] by (simp add: lstrip_def)

lemma strip_space_suffix: "list_all isspace w \<Longrightarrow> strip (s @ w) = strip s"
  by (simp add: strip_def lstrip_append rstrip_space_suffix lstrip_all_space rstrip_all_space)

lemma lstrip_decomp: "\<exists>w. list_all isspace w \<and> s = w @ lstrip s"
  by (rule exI [of _ "takeWhile isspace s"]) (auto simp: lstrip_def list_all_iff dest: set_takeWhileD)

lemma rstrip_decomp: "\<exists>w. list_all isspace w \<and> s = rstrip s @ w"
proof (rule exI [of _ "rev (takeWhile isspace (rev s))"], intro conjI)
  show "list_all isspace (rev (takeWhile isspace (rev s)))"
    by (auto simp: list_all_iff dest: set_takeWhileD)
  have "s = rev (takeWhile isspace (rev s) @ dropWhile isspace (rev s))" by simp
  also have "\<dots> = rev (dropWhile isspace (rev s)) @ rev (takeWhile isspace (rev s))"
    by (rule rev_append)
  finally show "s = rstrip s @ rev (takeWhile isspace (rev s))" unfolding rstrip_def .
qed

lemma strip_decomp: "\<exists>w1 w2. list_all isspace w1 \<and> list_all isspace w2 \<and> s = w1 @ strip s @ w2"
proof -
  obtain w1 where w1: "list_all isspace w1" "s = w1 @ lstrip s" using lstrip_decomp by blast
  obtain w2 where w2: "list_all isspace w2" "lstrip s = rstrip (lstrip s) @ w2" using rstrip_decomp by blast
  from w1 w2 have "s = w1 @ strip s @ w2" by (simp add: strip_def)
  with w1 w2 show ?thesis by blast
qed

lemma comma_not_space: "list_all isspace w \<Longrightarrow> CHR '','' \<notin> set w"
  by (auto simp: list_all_iff isspace_def)

lemma trimmed_pieces_prepend:
  assumes "list_all isspace w"
  shows "map strip (str_split (CHR '','') (w @ s)) = map strip (str_split (CHR '','') s)"
proof -
  obtain p ps where ps: "str_split (CHR '','') s = p # ps"
    using str_split_not_Nil [of "CHR '',''" s] by (cases "str_split (CHR '','') s") auto
  from assms show ?thesis
    by (simp add: str_split_prepend comma_not_space ps strip_space_prefix)
qed

lemma trimmed_pieces_append:
  assumes "list_all isspace w"
  shows "map strip (str_split (CHR '','') (s @ w)) = map strip (str_split (CHR '','') s)"
proof -
  let ?ps = "str_split (CHR '','') s"
  have ne: "?ps \<noteq> []" by (rule str_split_not_Nil)
  have "map strip (str_split (CHR '','') (s @ w)) = map strip (butlast ?ps) @ [strip (last ?ps)]"
    using assms by (simp add: str_split_append comma_not_space strip_space_suffix)
  also have "\<dots> = map strip (butlast ?ps @ [last ?ps])" by simp
  also have "\<dots> = map strip ?ps" using ne by simp
  finally show ?thesis .
qed

lemma split_labels_strip: "split_labels (strip line) = map strip (str_split (CHR '','') line)"
proof -
  obtain w1 w2 where w: "list_all isspace w1" "list_all isspace w2" "line = w1 @ strip line @ w2"
    using strip_decomp by blast
  have "map strip (str_split (CHR '','') line) = map strip (str_split (CHR '','') (w1 @ (strip line @ w2)))"
    using w(3) by simp
  also have "\<dots> = map strip (str_split (CHR '','') (strip line @ w2))"
    using w(1) by (rule trimmed_pieces_prepend)
  also have "\<dots> = map strip (str_split (CHR '','') (strip line))"
    using w(2) by (rule trimmed_pieces_append)
  finally show ?thesis by (simp add: split_labels_def)
qed


subsection \<open>Lower case\<close>

lemma of_char_less_256: "(of_char c :: nat) < 256"
proof -
  have "(of_char c :: nat) = of_char c mod 256" by (simp only: of_char_mod_256)
  also have "\<dots> < 256" by simp
  finally show ?thesis .
qed

lemma char_eq_code: "c = d \<longleftrightarrow> (of_char c :: nat) = of_char d"
  by (simp only: of_char_eq_iff)

lemma lower_char_letter:
  assumes "(of_char x :: nat) = m" "97 \<le> m" "m \<le> 122"
  shows "lower_char c = x \<longleftrightarrow> c = x \<or> (of_char c :: nat) = m - 32"
proof -
  let ?n = "of_char c :: nat"
  have n: "?n < 256" by (rule of_char_less_256)
  show ?thesis
  proof (cases "(65 \<le> ?n \<and> ?n \<le> 90) \<or> (192 \<le> ?n \<and> ?n \<le> 222 \<and> ?n \<noteq> 215)")
    case True
    have l: "lower_char c = char_of (?n + 32)"
      unfolding lower_char_def Let_def by (rule if_P [OF True])
    have "(of_char (char_of (?n + 32) :: char) :: nat) = (?n + 32) mod 256" by (rule of_char_of)
    also have "\<dots> = ?n + 32" using True by auto
    finally have "(of_char (lower_char c) :: nat) = ?n + 32" using l by simp
    then have "lower_char c = x \<longleftrightarrow> ?n + 32 = m" using assms(1) by (simp add: char_eq_code del: of_char_eq_iff)
    moreover have "c \<noteq> x" using True assms by (auto simp: char_eq_code simp del: of_char_eq_iff)
    ultimately show ?thesis using True assms(2,3) by auto
  next
    case False
    have l: "lower_char c = c"
      unfolding lower_char_def Let_def by (rule if_not_P [OF False])
    from False assms(2,3) have "?n \<noteq> m - 32" by auto
    with l show ?thesis by simp
  qed
qed

lemma lower_char_t: "lower_char c = CHR ''t'' \<longleftrightarrow> c = CHR ''t'' \<or> c = CHR ''T''"
  using lower_char_letter [of "CHR ''t''" 116 c] by (simp add: char_eq_code del: of_char_eq_iff)
lemma lower_char_r: "lower_char c = CHR ''r'' \<longleftrightarrow> c = CHR ''r'' \<or> c = CHR ''R''"
  using lower_char_letter [of "CHR ''r''" 114 c] by (simp add: char_eq_code del: of_char_eq_iff)
lemma lower_char_u: "lower_char c = CHR ''u'' \<longleftrightarrow> c = CHR ''u'' \<or> c = CHR ''U''"
  using lower_char_letter [of "CHR ''u''" 117 c] by (simp add: char_eq_code del: of_char_eq_iff)
lemma lower_char_e: "lower_char c = CHR ''e'' \<longleftrightarrow> c = CHR ''e'' \<or> c = CHR ''E''"
  using lower_char_letter [of "CHR ''e''" 101 c] by (simp add: char_eq_code del: of_char_eq_iff)

lemma lower_true:
  "lower v = ''true'' \<longleftrightarrow>
     (\<exists>a b c d. v = [a, b, c, d] \<and> (a = CHR ''t'' \<or> a = CHR ''T'') \<and> (b = CHR ''r'' \<or> b = CHR ''R'')
        \<and> (c = CHR ''u'' \<or> c = CHR ''U'') \<and> (d = CHR ''e'' \<or> d = CHR ''E''))"
proof
  assume "lower v = ''true''"
  then obtain a b c d where v: "v = [a, b, c, d]"
    and "lower_char a = CHR ''t''" "lower_char b = CHR ''r''" "lower_char c = CHR ''u''" "lower_char d = CHR ''e''"
    by (auto simp: lower_def map_eq_Cons_conv)
  then show "\<exists>a b c d. v = [a, b, c, d] \<and> (a = CHR ''t'' \<or> a = CHR ''T'') \<and> (b = CHR ''r'' \<or> b = CHR ''R'')
        \<and> (c = CHR ''u'' \<or> c = CHR ''U'') \<and> (d = CHR ''e'' \<or> d = CHR ''E'')"
    by (simp only: lower_char_t lower_char_r lower_char_u lower_char_e) blast
next
  assume "\<exists>a b c d. v = [a, b, c, d] \<and> (a = CHR ''t'' \<or> a = CHR ''T'') \<and> (b = CHR ''r'' \<or> b = CHR ''R'')
        \<and> (c = CHR ''u'' \<or> c = CHR ''U'') \<and> (d = CHR ''e'' \<or> d = CHR ''E'')"
  then obtain a b c d where v: "v = [a, b, c, d]"
    and "lower_char a = CHR ''t''" "lower_char b = CHR ''r''" "lower_char c = CHR ''u''" "lower_char d = CHR ''e''"
    by (simp only: lower_char_t lower_char_r lower_char_u lower_char_e) blast
  then show "lower v = ''true''" by (simp add: lower_def)
qed

subsection \<open>Sample data\<close>

definition sample_issue :: "int \<Rightarrow> issue" where
  \<comment> \<open>a record with the given number, for concrete instances\<close>
  "sample_issue n =
     \<lparr>number = n, short_title = ''Short'', title = ''Title '' @ str_int n,
      description = ''D'', goals = ''G'', files = ''F'', acceptance = ''A'',
      labels = [''bug''], effort = ''1h''\<rparr>"

definition sample_document :: string where
  \<comment> \<open>a document with sections numbered 1, 2 and 5 and other text around them\<close>
  "sample_document =
     ''# Issues\<newline>\<newline>### Issue 1: Logging\<newline>**Title**: Add logging\<newline>\<newline>**Description**:\<newline>Logs are missing.\<newline>\<newline>**Goals**:\<newline>- log requests\<newline>\<newline>**Files to modify**:\<newline>- main.go\<newline>\<newline>**Acceptance Criteria**:\<newline>- logs appear\<newline>\<newline>**Labels**: enhancement\<newline>**Estimated effort**: 2h\<newline>\<newline>---\<newline>\<newline>### Issue 2: Tests\<newline>**Title**: Add tests\<newline>\<newline>**Description**:\<newline>No tests exist.\<newline>\<newline>**Goals**:\<newline>- cover handlers\<newline>\<newline>**Files to modify**:\<newline>- handlers_test.go\<newline>\<newline>**Acceptance Criteria**:\<newline>- tests pass\<newline>\<newline>**Labels**: testing, good first issue\<newline>**Estimated effort**: 4h\<newline>\<newline>notes\<newline>\<newline>### Issue 5: Docs\<newline>**Title**: Write docs\<newline>\<newline>**Description**:\<newline>Docs are thin.\<newline>\<newline>**Goals**:\<newline>- describe API\<newline>\<newline>**Files to modify**:\<newline>- README.md\<newline>\<newline>**Acceptance Criteria**:\<newline>- docs reviewed\<newline>\<newline>**Labels**: documentation,enhancement\<newline>**Estimated effort**: 1h\<newline>''"

definition sample_files :: files where
  "sample_files = [issues_file \<mapsto> sample_document]"

definition sample_remote :: remote where
  \<comment> \<open>a repository that has the label \<^verbatim>\<open>enhancement\<close>, accepts every new label and refuses
      the issue titled \<^verbatim>\<open>Add tests\<close>\<close>
  "sample_remote =
     \<lparr>get_repo = (\<lambda>h token name. None),
      get_labels = (\<lambda>h. Inr [''enhancement'']),
      create_label = (\<lambda>h name color. None),
      create_issue = (\<lambda>h ttl body lbls.
         if ttl = ''Add tests'' then Inl ''422 Validation Failed''
         else Inr (100 + int (length h), ''https://tracker.example/issues''))\<rparr>"

definition env_without_repository :: environ where
  \<comment> \<open>live mode, with the token but without the repository name\<close>
  "env_without_repository = [''DRY_RUN'' \<mapsto> ''false'', ''GITHUB_TOKEN'' \<mapsto> ''t0ken'']"

subsection \<open>The labels line\<close>

text \<open>
  C4. The labels of a record are the pieces of the labels line between its commas, each
  trimmed of surrounding whitespace, in the order of the line and with nothing dropped or
  merged: joining the untrimmed pieces with commas gives the line back, no piece holds a
  comma, and there is one label more than the line has commas. The line
  \<^verbatim>\<open>bug, needs-review,perf\<close> gives \<^verbatim>\<open>bug\<close>, \<^verbatim>\<open>needs-review\<close>, \<^verbatim>\<open>perf\<close>, and a repeated
  label stays repeated.
\<close>

theorem labels_split_and_trimmed:
  "split_labels (strip line) = map strip (str_split (CHR '','') line) \<and>
   join '','' (str_split (CHR '','') line) = line \<and>
   list_all (\<lambda>p. CHR '','' \<notin> set p) (str_split (CHR '','') line) \<and>
   length (split_labels (strip line)) = Suc (count_list line (CHR '','')) \<and>
   split_labels (strip ''bug, needs-review,perf'') = [''bug'', ''needs-review'', ''perf''] \<and>
   split_labels (strip '' perf ,bug,perf'') = [''perf'', ''bug'', ''perf'']"
proof (intro conjI)
  show "split_labels (strip line) = map strip (str_split (CHR '','') line)"
    by (rule split_labels_strip)
  show "join '','' (str_split (CHR '','') line) = line"
    by (rule join_str_split)
  show "list_all (\<lambda>p. CHR '','' \<notin> set p) (str_split (CHR '','') line)"
    by (auto simp: list_all_iff dest: str_split_no_sep)
  show "length (split_labels (strip line)) = Suc (count_list line (CHR '',''))"
    by (simp add: split_labels_strip length_str_split)
  show "split_labels (strip ''bug, needs-review,perf'') = [''bug'', ''needs-review'', ''perf'']"
    by code_simp
  show "split_labels (strip '' perf ,bug,perf'') = [''perf'', ''bug'', ''perf'']"
    by code_simp
qed

theorem labels_split_and_trimmed_witness:
  "split_labels (strip ''a,, b '') = [''a'', [], ''b''] \<and>
   join '','' (str_split (CHR '','') ''a,, b '') = ''a,, b '' \<and>
   length (split_labels (strip ''a,, b '')) = 3"
proof -
  have "str_split (CHR '','') ''a,, b '' = [''a'', [], '' b '']" by code_simp
  moreover have "map strip [''a'', [], '' b ''] = [''a'', [], ''b'']" by code_simp
  moreover have "Suc (count_list ''a,, b '' (CHR '','')) = 3" by simp
  ultimately show ?thesis
    using labels_split_and_trimmed [of "''a,, b ''"] by simp
qed

subsection \<open>The dry-run flag\<close>

text \<open>
  C9. The dry-run flag compares the lower-cased value of \<^verbatim>\<open>DRY_RUN\<close> with \<^verbatim>\<open>true\<close>: a
  value selects dry-run mode exactly when its lower-casing is \<^verbatim>\<open>true\<close>, that is when it
  spells the four letters in any mix of cases. \<^verbatim>\<open>TRUE\<close> and \<^verbatim>\<open>True\<close> select dry-run
  mode; \<^verbatim>\<open>yes\<close>, \<^verbatim>\<open>1\<close>, \<^verbatim>\<open>True\<close> with a trailing space and \<^verbatim>\<open>false\<close> select live mode.
  An unset variable selects dry-run mode.
\<close>

theorem dry_run_flag:
  "(env ''DRY_RUN'' = None \<longrightarrow> is_dry_run env) \<and>
   (env ''DRY_RUN'' = Some v \<longrightarrow> (is_dry_run env \<longleftrightarrow> lower v = ''true'')) \<and>
   (lower v = ''true'' \<longleftrightarrow>
      (\<exists>a b c d. v = [a, b, c, d] \<and> (a = CHR ''t'' \<or> a = CHR ''T'') \<and>
         (b = CHR ''r'' \<or> b = CHR ''R'') \<and> (c = CHR ''u'' \<or> c = CHR ''U'') \<and>
         (d = CHR ''e'' \<or> d = CHR ''E''))) \<and>
   is_dry_run [''DRY_RUN'' \<mapsto> ''TRUE''] \<and>
   is_dry_run [''DRY_RUN'' \<mapsto> ''True''] \<and>
   \<not> is_dry_run [''DRY_RUN'' \<mapsto> ''yes''] \<and>
   \<not> is_dry_run [''DRY_RUN'' \<mapsto> ''1''] \<and>
   \<not> is_dry_run [''DRY_RUN'' \<mapsto> ''True ''] \<and>
   \<not> is_dry_run [''DRY_RUN'' \<mapsto> ''false'']"
proof (intro conjI)
  show "env ''DRY_RUN'' = None \<longrightarrow> is_dry_run env"
    by (simp add: is_dry_run_def getenv_def lower_true)
  show "env ''DRY_RUN'' = Some v \<longrightarrow> (is_dry_run env \<longleftrightarrow> lower v = ''true'')"
    by (simp add: is_dry_run_def getenv_def)
  show "lower v = ''true'' \<longleftrightarrow>
      (\<exists>a b c d. v = [a, b, c, d] \<and> (a = CHR ''t'' \<or> a = CHR ''T'') \<and>
         (b = CHR ''r'' \<or> b = CHR ''R'') \<and> (c = CHR ''u'' \<or> c = CHR ''U'') \<and>
         (d = CHR ''e'' \<or> d = CHR ''E''))"
    by (rule lower_true)
qed (simp_all add: is_dry_run_def getenv_def lower_true)

theorem dry_run_flag_witness:
  "[''DRY_RUN'' \<mapsto> ''tRuE''] ''DRY_RUN'' = Some ''tRuE'' \<and>
   lower ''tRuE'' = ''true'' \<and>
   is_dry_run [''DRY_RUN'' \<mapsto> ''tRuE'']"
proof -
  have "lower ''tRuE'' = ''true''" by (simp add: lower_true)
  then show ?thesis
    using dry_run_flag [of "[''DRY_RUN'' \<mapsto> ''tRuE'']" "''tRuE''"] by simp
qed


subsection \<open>Filtering by number\<close>

text \<open>
  C3, as stated, fails where the bounds are crossed: with \<^verbatim>\<open>START_ISSUE\<close> 5 and
  \<^verbatim>\<open>END_ISSUE\<close> 2 a record whose number equals the start bound is dropped, because the
  test \<^verbatim>\<open>start_issue <= number <= end_issue\<close> needs both comparisons.
\<close>

theorem filter_drops_start_when_bounds_crossed:
  "number (sample_issue 5) = 5 \<and> filtered_issues 5 2 [sample_issue 5] = []"
  by (simp add: filtered_issues_def sample_issue_def)

text \<open>
  C3, amended. For every sequence of records and every pair of bounds, filtering keeps
  exactly the records whose number lies between the bounds, both included, in the order
  of the parsed sequence: it goes through the sequence record by record, keeping or
  dropping each on its own. A record whose number equals the start or the end bound is
  kept whenever start is at most end; a record numbered one below the start or one above
  the end is dropped.
\<close>

theorem filter_keeps_range_in_order:
  "set (filtered_issues start_issue end_issue issues) =
     {r \<in> set issues. start_issue \<le> number r \<and> number r \<le> end_issue} \<and>
   subseq (filtered_issues start_issue end_issue issues) issues \<and>
   filtered_issues start_issue end_issue (r # issues) =
     (if start_issue \<le> number r \<and> number r \<le> end_issue
      then r # filtered_issues start_issue end_issue issues
      else filtered_issues start_issue end_issue issues) \<and>
   (r \<in> set issues \<and> (number r = start_issue \<or> number r = end_issue) \<and>
      start_issue \<le> end_issue \<longrightarrow>
      r \<in> set (filtered_issues start_issue end_issue issues)) \<and>
   (number r = start_issue - 1 \<or> number r = end_issue + 1 \<longrightarrow>
      r \<notin> set (filtered_issues start_issue end_issue issues))"
  by (auto simp: filtered_issues_def)

theorem filter_keeps_range_in_order_witness:
  "sample_issue 2 \<in> set [sample_issue 1, sample_issue 2, sample_issue 5] \<and>
   number (sample_issue 2) = 2 \<and> (2::int) \<le> 5 \<and>
   sample_issue 2 \<in> set (filtered_issues 2 5 [sample_issue 1, sample_issue 2, sample_issue 5]) \<and>
   map number (filtered_issues 2 5 [sample_issue 1, sample_issue 2, sample_issue 5]) = [2, 5]"
proof -
  have "map number (filtered_issues 2 5 [sample_issue 1, sample_issue 2, sample_issue 5]) = [2, 5]"
    by (simp add: filtered_issues_def sample_issue_def)
  moreover have "number (sample_issue 2) = 2" by (simp add: sample_issue_def)
  ultimately show ?thesis
    using filter_keeps_range_in_order
      [of 2 5 "[sample_issue 1, sample_issue 2, sample_issue 5]" "sample_issue 2"]
    by simp
qed


subsection \<open>Runs: the trace of \<^verbatim>\<open>main\<close>\<close>

lemma calls_append: "calls (xs @ ys) = calls xs @ calls ys"
  by (induction xs rule: calls.induct) simp_all

lemma calls_config_lines: "calls (config_lines d a b) = []"
  by (simp add: config_lines_def)

lemma calls_parsed_lines: "calls (parsed_lines m n a b) = []"
  by (simp add: parsed_lines_def)

lemma calls_summary: "calls (summary d k n) = []"
  by (simp add: summary_def)

lemma process_issue_dry: "process_issue R True issue st log = (log @ dry_lines issue, Inr st)"
  by (simp add: process_issue_def dry_lines_def)

lemma process_issues_dry:
  "process_issues R True issues st log = (log @ concat (map dry_lines issues), Inr st)"
  by (induction issues arbitrary: log) (simp_all add: process_issue_dry)

lemma calls_dry_lines: "calls (concat (map dry_lines issues)) = []"
  by (induction issues) (simp_all add: calls_append dry_lines_def)

lemma main_dry_calls: "is_dry_run env \<Longrightarrow> calls (fst (main env fs R)) = []"
  by (simp add: main_def Let_def process_issues_dry calls_append calls_config_lines
        calls_parsed_lines calls_summary calls_dry_lines split: option.splits sum.splits)

lemma initialize_client_missing:
  assumes "not_set (env ''GITHUB_TOKEN'') \<or> not_set (env ''GITHUB_REPOSITORY'')"
  shows "initialize_client env R log =
     (log @ [Print (if not_set (env ''GITHUB_TOKEN'')
                    then ''ERROR: GITHUB_TOKEN environment variable not set''
                    else ''ERROR: GITHUB_REPOSITORY environment variable not set'')],
      Inl (SysExit 1))"
  using assms by (auto simp: initialize_client_def Let_def)

lemma main_bad_start:
  "py_int (getenv env ''START_ISSUE'' ''1'') = None \<Longrightarrow> main env fs R = ([], Raised ValueError)"
  by (simp add: main_def Let_def)

lemma main_bad_end:
  "py_int (getenv env ''END_ISSUE'' ''20'') = None \<Longrightarrow> main env fs R = ([], Raised ValueError)"
  by (simp add: main_def Let_def split: option.splits)

subsection \<open>Dry-run mode makes no remote call\<close>

text \<open>
  C1. Whenever \<^verbatim>\<open>DRY_RUN\<close> is unset or equal to \<^verbatim>\<open>true\<close>, the trace of the run holds no
  remote call: no repository lookup, no label listing, no label creation and no issue
  creation, whatever the document, the remote side and the other variables are (a range
  that is no number ends the run before anything happens, a document that cannot be
  read ends it after the first lines).
\<close>

theorem dry_run_no_remote_calls:
  "env ''DRY_RUN'' = None \<or> env ''DRY_RUN'' = Some ''true'' \<Longrightarrow>
   calls (fst (main env fs R)) = []"
proof -
  assume "env ''DRY_RUN'' = None \<or> env ''DRY_RUN'' = Some ''true''"
  then have "is_dry_run env" by (auto simp: is_dry_run_def getenv_def lower_true)
  then show ?thesis by (rule main_dry_calls)
qed

theorem dry_run_no_remote_calls_witness:
  "[''DRY_RUN'' \<mapsto> ''true'', ''START_ISSUE'' \<mapsto> ''2'', ''END_ISSUE'' \<mapsto> ''5''] ''DRY_RUN'' =
     Some ''true'' \<and>
   calls (fst (main [''DRY_RUN'' \<mapsto> ''true'', ''START_ISSUE'' \<mapsto> ''2'', ''END_ISSUE'' \<mapsto> ''5'']
                 sample_files sample_remote)) = [] \<and>
   snd (main [''DRY_RUN'' \<mapsto> ''true'', ''START_ISSUE'' \<mapsto> ''2'', ''END_ISSUE'' \<mapsto> ''5'']
          sample_files sample_remote) = Finished"
proof -
  have "snd (main [''DRY_RUN'' \<mapsto> ''true'', ''START_ISSUE'' \<mapsto> ''2'', ''END_ISSUE'' \<mapsto> ''5'']
          sample_files sample_remote) = Finished"
    by code_simp
  then show ?thesis
    using dry_run_no_remote_calls
      [of "[''DRY_RUN'' \<mapsto> ''true'', ''START_ISSUE'' \<mapsto> ''2'', ''END_ISSUE'' \<mapsto> ''5'']"
          sample_files sample_remote]
    by simp
qed

subsection \<open>Live mode without credentials\<close>

text \<open>
  C6. In live mode, when \<^verbatim>\<open>GITHUB_TOKEN\<close> or \<^verbatim>\<open>GITHUB_REPOSITORY\<close> is absent (or empty),
  the run makes no remote call and the process ends with status 1. Where the range and
  the document are read without error, the run is exactly: the configuration lines, the
  opening of the document, the two count lines, the line naming the missing variable,
  and \<^verbatim>\<open>sys.exit(1)\<close>; no issue is processed.
\<close>

theorem live_mode_missing_credentials_fatal:
  assumes "\<not> is_dry_run env"
    and "not_set (env ''GITHUB_TOKEN'') \<or> not_set (env ''GITHUB_REPOSITORY'')"
  shows
    "calls (fst (main env fs R)) = [] \<and>
     exit_status (snd (main env fs R)) = 1 \<and>
     (py_int (getenv env ''START_ISSUE'' ''1'') = Some a \<and>
      py_int (getenv env ''END_ISSUE'' ''20'') = Some b \<and>
      parse_issues_file fs issues_file = Inr issues \<longrightarrow>
      main env fs R =
        (config_lines False a b @ [Open issues_file] @
         parsed_lines (length issues) (length (filtered_issues a b issues)) a b @
         [Print (if not_set (env ''GITHUB_TOKEN'')
                 then ''ERROR: GITHUB_TOKEN environment variable not set''
                 else ''ERROR: GITHUB_REPOSITORY environment variable not set'')],
         SysExit 1))"
proof (intro conjI impI)
  show "calls (fst (main env fs R)) = []"
    using assms(1)
    by (simp add: main_def Let_def initialize_client_missing [OF assms(2)] calls_append
          calls_config_lines calls_parsed_lines split: option.splits sum.splits)
  show "exit_status (snd (main env fs R)) = 1"
    using assms(1)
    by (simp add: main_def Let_def initialize_client_missing [OF assms(2)]
          split: option.splits sum.splits)
next
  assume "py_int (getenv env ''START_ISSUE'' ''1'') = Some a \<and>
      py_int (getenv env ''END_ISSUE'' ''20'') = Some b \<and>
      parse_issues_file fs issues_file = Inr issues"
  then show "main env fs R =
        (config_lines False a b @ [Open issues_file] @
         parsed_lines (length issues) (length (filtered_issues a b issues)) a b @
         [Print (if not_set (env ''GITHUB_TOKEN'')
                 then ''ERROR: GITHUB_TOKEN environment variable not set''
                 else ''ERROR: GITHUB_REPOSITORY environment variable not set'')],
         SysExit 1)"
    using assms(1) by (simp add: main_def Let_def initialize_client_missing [OF assms(2)])
qed

subsection \<open>A range that is no number\<close>

text \<open>
  C10. When \<^verbatim>\<open>START_ISSUE\<close> or \<^verbatim>\<open>END_ISSUE\<close> is set to a text that \<^verbatim>\<open>int()\<close> does not
  accept, the run ends with the unhandled \<^verbatim>\<open>ValueError\<close> and an empty trace: nothing is
  printed, the document is not opened and no remote call is made. This does not depend
  on \<^verbatim>\<open>DRY_RUN\<close>, so it holds in dry-run and in live mode.
\<close>

theorem invalid_range_raises_before_reading:
  "(env ''START_ISSUE'' = Some v \<or> env ''END_ISSUE'' = Some v) \<Longrightarrow> py_int v = None \<Longrightarrow>
   main env fs R = ([], Raised ValueError)"
proof (erule disjE)
  assume "env ''START_ISSUE'' = Some v" "py_int v = None"
  then have "py_int (getenv env ''START_ISSUE'' ''1'') = None" by (simp add: getenv_def)
  then show ?thesis by (rule main_bad_start)
next
  assume "env ''END_ISSUE'' = Some v" "py_int v = None"
  then have "py_int (getenv env ''END_ISSUE'' ''20'') = None" by (simp add: getenv_def)
  then show ?thesis by (rule main_bad_end)
qed

theorem invalid_range_raises_before_reading_witness:
  "[''DRY_RUN'' \<mapsto> ''false'', ''END_ISSUE'' \<mapsto> ''5.0''] ''END_ISSUE'' = Some ''5.0'' \<and>
   py_int ''5.0'' = None \<and>
   \<not> is_dry_run [''DRY_RUN'' \<mapsto> ''false'', ''END_ISSUE'' \<mapsto> ''5.0''] \<and>
   main [''DRY_RUN'' \<mapsto> ''false'', ''END_ISSUE'' \<mapsto> ''5.0''] sample_files sample_remote =
     ([], Raised ValueError) \<and>
   [''START_ISSUE'' \<mapsto> ''two''] ''START_ISSUE'' = Some ''two'' \<and>
   py_int ''two'' = None \<and>
   is_dry_run [''START_ISSUE'' \<mapsto> ''two''] \<and>
   main [''START_ISSUE'' \<mapsto> ''two''] sample_files sample_remote = ([], Raised ValueError)"
proof -
  have a: "py_int ''5.0'' = None" by code_simp
  have b: "py_int ''two'' = None" by code_simp
  have c: "\<not> is_dry_run [''DRY_RUN'' \<mapsto> ''false'', ''END_ISSUE'' \<mapsto> ''5.0'']"
    by (simp add: is_dry_run_def getenv_def lower_true)
  have d: "is_dry_run [''START_ISSUE'' \<mapsto> ''two'']"
    by (simp add: is_dry_run_def getenv_def lower_true)
  from invalid_range_raises_before_reading
         [of "[''DRY_RUN'' \<mapsto> ''false'', ''END_ISSUE'' \<mapsto> ''5.0'']" "''5.0''"
             sample_files sample_remote]
       invalid_range_raises_before_reading
         [of "[''START_ISSUE'' \<mapsto> ''two'']" "''two''" sample_files sample_remote]
       a b c d
  show ?thesis by simp
qed

end
